theory Spec2Isabelle
  imports Main "HOL-Library.Word"
begin

section \<open>The charger limiter of drivers/power/charger\_limiter.c\<close>

subsection \<open>Data\<close>

text \<open>
  The three properties the worker reads. A power supply is the object returned by
  \<^verbatim>\<open>power_supply_get_by_name\<close>: the lookup may return a null pointer (\<open>None\<close>), and
  the object's \<^verbatim>\<open>get_property\<close> callback may itself be a null pointer. A callback is
  modelled by the \<^verbatim>\<open>intval\<close> it stores for each property.
\<close>

datatype power_supply_property =
  POWER_SUPPLY_PROP_STATUS | POWER_SUPPLY_PROP_CAPACITY | POWER_SUPPLY_PROP_PRESENT

record power_supply =
  get_property :: "(power_supply_property \<Rightarrow> int) option"

text \<open>
  Modelled from the spec: the enumerator \<^verbatim>\<open>POWER_SUPPLY_STATUS_CHARGING\<close> is declared in
  \<^verbatim>\<open>linux/power_supply.h\<close>, which is not part of the sources at hand; the spec calls the
  status \<open>Charging\<close>. The kernel's enumeration gives it the value 1; no theorem below
  depends on the number.
\<close>

definition POWER_SUPPLY_STATUS_CHARGING :: int where
  "POWER_SUPPLY_STATUS_CHARGING = 1"

text \<open>Dereferencing a null pointer in the worker is a kernel fault, not a return.\<close>

datatype fault = NULL_POINTER_DEREFERENCE

datatype errno = EINVAL | ENOMEM

text \<open>
  The module's static variables, together with the delayed work (\<open>None\<close> when nothing is
  queued, otherwise the delay in milliseconds it was queued with), whether the workqueue
  exists, and the log of the calls made to \<^verbatim>\<open>power_supply_set_charging_enabled\<close>
  (the \<^verbatim>\<open>enable\<close> argument of each call, oldest first).
\<close>

record limiter =
  charging_off :: bool
  cl_is_enabled :: bool
  charge_should_off :: bool
  enabled :: int
  charging_below :: int
  charging_limit :: int
  charge_limiter_wq :: bool
  charger_limiter_work :: "int option"
  set_charging_calls :: "bool list"

definition limiter_init :: limiter where
  "limiter_init =
     \<lparr> charging_off = False, cl_is_enabled = False, charge_should_off = False,
       enabled = 0, charging_below = 95, charging_limit = 100,
       charge_limiter_wq = False, charger_limiter_work = None,
       set_charging_calls = [] \<rparr>"

subsection \<open>The actuator\<close>

text \<open>
  \<^verbatim>\<open>power_supply_set_charging_enabled\<close> is declared \<^verbatim>\<open>extern\<close>. Its return codes are a
  parameter of the model: \<open>hw n enable\<close> is what the call number \<open>n\<close> (counted from 0)
  returns when it is asked for \<open>enable\<close>; 0 is success.
\<close>

type_synonym charger_hw = "nat \<Rightarrow> bool \<Rightarrow> int"

definition power_supply_set_charging_enabled ::
  "charger_hw \<Rightarrow> bool \<Rightarrow> limiter \<Rightarrow> int \<times> limiter" where
  "power_supply_set_charging_enabled hw enable s =
     (hw (length (set_charging_calls s)) enable,
      s\<lparr>set_charging_calls := set_charging_calls s @ [enable]\<rparr>)"

definition enable_disable_charging :: "charger_hw \<Rightarrow> bool \<Rightarrow> limiter \<Rightarrow> limiter" where
  "enable_disable_charging hw enable s =
     (if charging_off s \<and> enable then
        (case power_supply_set_charging_enabled hw True s of
           (rc, s') \<Rightarrow> if rc = 0 then s'\<lparr>charging_off := False\<rparr> else s')
      else if \<not> charging_off s \<and> \<not> enable then
        (case power_supply_set_charging_enabled hw False s of
           (rc, s') \<Rightarrow> if rc = 0 then s'\<lparr>charging_off := True\<rparr> else s')
      else s)"

subsection \<open>The worker\<close>

definition reschedule_worker :: "int \<Rightarrow> limiter \<Rightarrow> limiter" where
  "reschedule_worker ms s = s\<lparr>charger_limiter_work := Some ms\<rparr>"

text \<open>
  The part of the worker after the three \<^verbatim>\<open>get_property\<close> calls, given the values they
  stored. It yields the new state and \<^verbatim>\<open>ms_timer\<close>.
\<close>

definition worker_decide :: "charger_hw \<Rightarrow> int \<Rightarrow> int \<Rightarrow> int \<Rightarrow> limiter \<Rightarrow> limiter \<times> int" where
  "worker_decide hw status bat_percent usb_connect s =
     (let s1 = (if bat_percent \<le> charging_below s
                then enable_disable_charging hw True s else s)
      in if status = POWER_SUPPLY_STATUS_CHARGING \<or> usb_connect \<noteq> 0 then
           (if bat_percent \<le> charging_below s1 then
              (enable_disable_charging hw True s1, 1000)
            else if bat_percent \<ge> charging_limit s1 then
              (if charge_should_off s1 then
                 ((enable_disable_charging hw False s1)\<lparr>charge_should_off := False\<rparr>, 1000)
               else (s1\<lparr>charge_should_off := True\<rparr>, 10000))
            else (s1, 1000))
         else (s1, 1000))"

text \<open>
  The worker. \<^verbatim>\<open>!batt_psy->get_property || !usb_psy->get_property\<close> dereferences
  \<^verbatim>\<open>batt_psy\<close> first and \<^verbatim>\<open>usb_psy\<close> only when the battery has a callback.
\<close>

definition charger_limiter_worker ::
  "charger_hw \<Rightarrow> power_supply option \<Rightarrow> power_supply option \<Rightarrow> limiter \<Rightarrow> fault + limiter" where
  "charger_limiter_worker hw batt_psy usb_psy s =
     (case batt_psy of
        None \<Rightarrow> Inl NULL_POINTER_DEREFERENCE
      | Some batt \<Rightarrow>
          (case get_property batt of
             None \<Rightarrow> Inr (reschedule_worker 5000 s)
           | Some batt_get \<Rightarrow>
               (case usb_psy of
                  None \<Rightarrow> Inl NULL_POINTER_DEREFERENCE
                | Some usb \<Rightarrow>
                    (case get_property usb of
                       None \<Rightarrow> Inr (reschedule_worker 5000 s)
                     | Some usb_get \<Rightarrow>
                         (case worker_decide hw
                                 (batt_get POWER_SUPPLY_PROP_STATUS)
                                 (batt_get POWER_SUPPLY_PROP_CAPACITY)
                                 (usb_get POWER_SUPPLY_PROP_PRESENT) s of
                            (s', ms_timer) \<Rightarrow> Inr (reschedule_worker ms_timer s'))))))"

text \<open>
  Consecutive runs of the worker, one per pair of looked-up supplies; a fault ends the
  run.
\<close>

fun run_worker ::
  "charger_hw \<Rightarrow> (power_supply option \<times> power_supply option) list \<Rightarrow> limiter \<Rightarrow> fault + limiter" where
  "run_worker hw [] s = Inr s"
| "run_worker hw (e # es) s =
     (case charger_limiter_worker hw (fst e) (snd e) s of
        Inl f \<Rightarrow> Inl f
      | Inr s' \<Rightarrow> run_worker hw es s')"

subsection \<open>Starting and stopping\<close>

text \<open>\<open>alloc_ok\<close> says whether \<^verbatim>\<open>alloc_workqueue\<close> returned a workqueue.\<close>

definition start_charger_limiter :: "bool \<Rightarrow> limiter \<Rightarrow> (errno + unit) \<times> limiter" where
  "start_charger_limiter alloc_ok s =
     (if \<not> alloc_ok then (Inl ENOMEM, s\<lparr>charge_limiter_wq := False\<rparr>)
      else (Inr (), reschedule_worker 1000 (s\<lparr>charge_limiter_wq := True\<rparr>)))"

definition stop_charger_limiter :: "charger_hw \<Rightarrow> power_supply option \<Rightarrow> limiter \<Rightarrow> limiter" where
  "stop_charger_limiter hw batt_psy s =
     (let s1 = s\<lparr>charger_limiter_work := None\<rparr>;
          s2 = s1\<lparr>charge_limiter_wq := False\<rparr>
      in if batt_psy \<noteq> None then enable_disable_charging hw True s2 else s2)"

subsection \<open>The sysfs stores\<close>

text \<open>
  Each store receives what \<^verbatim>\<open>sscanf(buf, "%u", &input)\<close> produced: \<open>None\<close> when it did
  not return 1, otherwise the unsigned value read. The result is the function's return
  value (\<^verbatim>\<open>-EINVAL\<close> or \<^verbatim>\<open>count\<close>) and the new state. Assigning the unsigned
  \<^verbatim>\<open>input\<close> to an \<^verbatim>\<open>int\<close> reads its 32 bits as two's complement.
\<close>

definition store_enabled ::
  "charger_hw \<Rightarrow> bool \<Rightarrow> power_supply option \<Rightarrow> 32 word option \<Rightarrow> nat \<Rightarrow> limiter
     \<Rightarrow> (errno + nat) \<times> limiter" where
  "store_enabled hw alloc_ok batt_psy scanned count s =
     (case scanned of
        None \<Rightarrow> (Inl EINVAL, s)
      | Some input \<Rightarrow>
          (let s1 = s\<lparr>enabled := sint input\<rparr>
           in (Inr count,
               if enabled s1 \<noteq> 0 then
                 (if \<not> cl_is_enabled s1
                  then (snd (start_charger_limiter alloc_ok s1))\<lparr>cl_is_enabled := True\<rparr>
                  else s1)
               else
                 (if cl_is_enabled s1
                  then (stop_charger_limiter hw batt_psy s1)\<lparr>cl_is_enabled := False\<rparr>
                  else s1))))"

definition store_charging_below :: "32 word option \<Rightarrow> nat \<Rightarrow> limiter \<Rightarrow> (errno + nat) \<times> limiter" where
  "store_charging_below scanned count s =
     (case scanned of
        None \<Rightarrow> (Inl EINVAL, s)
      | Some input0 \<Rightarrow>
          (let input = (if input0 > 100 then 100 else input0);
               s1 = s\<lparr>charging_below := sint input\<rparr>
           in (Inr count,
               if charging_below s1 \<ge> charging_limit s1
               then s1\<lparr>charging_below := charging_limit s1 - 5\<rparr>
               else s1)))"

definition store_charging_limit :: "32 word option \<Rightarrow> nat \<Rightarrow> limiter \<Rightarrow> (errno + nat) \<times> limiter" where
  "store_charging_limit scanned count s =
     (case scanned of
        None \<Rightarrow> (Inl EINVAL, s)
      | Some input0 \<Rightarrow>
          (let input = (if input0 > 100 then 100 else input0);
               s1 = s\<lparr>charging_limit := sint input\<rparr>
           in (Inr count,
               if charging_limit s1 \<le> charging_below s1
               then s1\<lparr>charging_limit := charging_below s1 + 5\<rparr>
               else s1)))"

text \<open>A sequence of writes to the two threshold files, applied in order.\<close>

datatype threshold_write =
  Write_charging_below "32 word option" nat
| Write_charging_limit "32 word option" nat

fun apply_write :: "threshold_write \<Rightarrow> limiter \<Rightarrow> limiter" where
  "apply_write (Write_charging_below scanned count) s = snd (store_charging_below scanned count s)"
| "apply_write (Write_charging_limit scanned count) s = snd (store_charging_limit scanned count s)"

fun apply_writes :: "threshold_write list \<Rightarrow> limiter \<Rightarrow> limiter" where
  "apply_writes [] s = s"
| "apply_writes (w # ws) s = apply_writes ws (apply_write w s)"

subsection \<open>Snapshots\<close>

text \<open>
  The worker's test \<^verbatim>\<open>!batt_psy->get_property || !usb_psy->get_property\<close> evaluates
  without a fault and is true: the sample is unavailable.
\<close>

definition sample_unavailable :: "power_supply option \<Rightarrow> power_supply option \<Rightarrow> bool" where
  "sample_unavailable batt_psy usb_psy =
     (case batt_psy of
        None \<Rightarrow> False
      | Some batt \<Rightarrow>
          (case get_property batt of
             None \<Rightarrow> True
           | Some batt_get \<Rightarrow>
               (case usb_psy of None \<Rightarrow> False | Some usb \<Rightarrow> get_property usb = None)))"

text \<open>A supply whose callback stores the given value for every property it is asked.\<close>

definition psy_of :: "(power_supply_property \<Rightarrow> int) \<Rightarrow> power_supply option" where
  "psy_of f = Some \<lparr> get_property = Some f \<rparr>"

definition battery_supply :: "int \<Rightarrow> int \<Rightarrow> power_supply option" where
  "battery_supply status bat_percent =
     psy_of (\<lambda>p. case p of POWER_SUPPLY_PROP_STATUS \<Rightarrow> status
                          | POWER_SUPPLY_PROP_CAPACITY \<Rightarrow> bat_percent
                          | POWER_SUPPLY_PROP_PRESENT \<Rightarrow> 0)"

definition usb_supply :: "int \<Rightarrow> power_supply option" where
  "usb_supply usb_connect = psy_of (\<lambda>p. usb_connect)"

text \<open>
  What the three \<^verbatim>\<open>get_property\<close> calls store (status, capacity, USB presence) when
  both supplies exist and have the callback; \<open>None\<close> otherwise.
\<close>

definition sample :: "power_supply option \<Rightarrow> power_supply option \<Rightarrow> (int \<times> int \<times> int) option" where
  "sample batt_psy usb_psy =
     (case batt_psy of
        None \<Rightarrow> None
      | Some batt \<Rightarrow>
          (case get_property batt of
             None \<Rightarrow> None
           | Some batt_get \<Rightarrow>
               (case usb_psy of
                  None \<Rightarrow> None
                | Some usb \<Rightarrow>
                    (case get_property usb of
                       None \<Rightarrow> None
                     | Some usb_get \<Rightarrow>
                         Some (batt_get POWER_SUPPLY_PROP_STATUS,
                               batt_get POWER_SUPPLY_PROP_CAPACITY,
                               usb_get POWER_SUPPLY_PROP_PRESENT)))))"

text \<open>The worker's test \<^verbatim>\<open>status.intval == POWER_SUPPLY_STATUS_CHARGING || usb_connect.intval\<close>.\<close>

definition charging_or_usb :: "int \<Rightarrow> int \<Rightarrow> bool" where
  "charging_or_usb status usb_connect \<longleftrightarrow>
     status = POWER_SUPPLY_STATUS_CHARGING \<or> usb_connect \<noteq> 0"

text \<open>
  A cycle that is not a resume cycle for the thresholds of \<open>s\<close>: its sample is
  unavailable, or the capacity read is above \<open>charging_below\<close>.
\<close>

definition no_resume_cycle :: "limiter \<Rightarrow> power_supply option \<times> power_supply option \<Rightarrow> bool" where
  "no_resume_cycle s e \<longleftrightarrow>
     sample_unavailable (fst e) (snd e) \<or>
     (case sample (fst e) (snd e) of
        None \<Rightarrow> False
      | Some (status, bat_percent, usb_connect) \<Rightarrow> charging_below s < bat_percent)"

text \<open>
  The value a threshold store keeps of the unsigned \<^verbatim>\<open>input\<close> it scanned: at most 100,
  read as an \<^verbatim>\<open>int\<close>.
\<close>

definition written_percent :: "32 word \<Rightarrow> int" where
  "written_percent input = sint (if input > 100 then 100 else input)"

text \<open>The bounds the stores keep on the two thresholds.\<close>

definition thresholds_inv :: "limiter \<Rightarrow> bool" where
  "thresholds_inv s \<longleftrightarrow>
     - 5 \<le> charging_below s \<and> charging_below s \<le> 100 \<and>
     0 \<le> charging_limit s \<and> charging_limit s \<le> 105 \<and>
     charging_below s < charging_limit s"

section \<open>Properties\<close>

subsection \<open>Unavailable samples\<close>

lemma worker_unavailable:
  assumes "sample_unavailable batt_psy usb_psy"
  shows "charger_limiter_worker hw batt_psy usb_psy s
           = Inr (s\<lparr>charger_limiter_work := Some 5000\<rparr>)"
  using assms
  by (auto simp add: sample_unavailable_def charger_limiter_worker_def reschedule_worker_def
           split: option.splits)

text \<open>
  C8. A cycle whose sample is unavailable must make no actuator call, keep both flags
  and queue the next run after 5000 ms. The worker does so when both supplies are found
  and one of them has no \<^verbatim>\<open>get_property\<close> callback (lemma \<open>worker_unavailable\<close>). When
  a lookup itself finds no supply, the worker's test dereferences the null pointer: with
  the limiter enabled from the initial state, a missing battery supply, or a battery
  supply with a callback and a missing USB supply, ends the cycle in a fault and nothing
  is queued. \<^verbatim>\<open>stop_charger_limiter\<close> does check \<^verbatim>\<open>if (batt_psy)\<close>.
\<close>

theorem worker_faults_on_missing_supply:
  "charger_limiter_worker (\<lambda>n e. 0) None (usb_supply 1)
     (snd (store_enabled (\<lambda>n e. 0) True None (Some 1) 2 limiter_init))
     = Inl NULL_POINTER_DEREFERENCE
   \<and> charger_limiter_worker (\<lambda>n e. 0) (battery_supply 2 50) None
     (snd (store_enabled (\<lambda>n e. 0) True None (Some 1) 2 limiter_init))
     = Inl NULL_POINTER_DEREFERENCE"
  by (simp add: charger_limiter_worker_def battery_supply_def psy_of_def)

subsection \<open>The threshold stores\<close>

lemma sint_clamped_input:
  fixes input0 :: "32 word"
  shows "0 \<le> sint (if input0 > 100 then 100 else input0)
       \<and> sint (if input0 > 100 then 100 else input0) \<le> 100"
proof (cases "input0 > 100")
  case True
  then show ?thesis by simp
next
  case False
  then have le: "input0 \<le> 100" by simp
  then have u: "uint input0 \<le> 100" by (simp add: word_le_def)
  have "sint input0 = uint input0"
  proof -
    have nn: "0 \<le> uint input0" by simp
    have lo: "- (2 ^ 31) \<le> uint input0" by (rule order_trans [OF _ nn]) simp
    have hi: "uint input0 < 2 ^ 31" by (rule le_less_trans [OF u]) simp
    have "signed_take_bit 31 (uint input0) = uint input0"
      using lo hi by (rule signed_take_bit_int_eq_self)
    then show ?thesis by (simp add: sint_uint)
  qed
  with u False show ?thesis by simp
qed


lemma store_charging_below_inv:
  assumes "thresholds_inv s"
  shows "thresholds_inv (snd (store_charging_below scanned count s))"
proof (cases scanned)
  case None
  then show ?thesis using assms by (simp add: store_charging_below_def)
next
  case (Some input0)
  define v where "v = sint (if input0 > 100 then 100 else input0)"
  have v: "0 \<le> v" "v \<le> 100"
    using sint_clamped_input [of input0] by (simp_all add: v_def)
  have "snd (store_charging_below scanned count s) =
          (if charging_limit s \<le> v then s\<lparr>charging_below := charging_limit s - 5\<rparr>
           else s\<lparr>charging_below := v\<rparr>)"
    by (simp add: Some store_charging_below_def Let_def v_def)
  then show ?thesis using assms v by (auto simp add: thresholds_inv_def)
qed

lemma store_charging_limit_inv:
  assumes "thresholds_inv s"
  shows "thresholds_inv (snd (store_charging_limit scanned count s))"
proof (cases scanned)
  case None
  then show ?thesis using assms by (simp add: store_charging_limit_def)
next
  case (Some input0)
  define v where "v = sint (if input0 > 100 then 100 else input0)"
  have v: "0 \<le> v" "v \<le> 100"
    using sint_clamped_input [of input0] by (simp_all add: v_def)
  have "snd (store_charging_limit scanned count s) =
          (if v \<le> charging_below s then s\<lparr>charging_limit := charging_below s + 5\<rparr>
           else s\<lparr>charging_limit := v\<rparr>)"
    by (simp add: Some store_charging_limit_def Let_def v_def)
  then show ?thesis using assms v by (auto simp add: thresholds_inv_def)
qed

lemma apply_write_inv: "thresholds_inv s \<Longrightarrow> thresholds_inv (apply_write w s)"
  by (cases w) (simp_all add: store_charging_below_inv store_charging_limit_inv)

lemma apply_writes_inv: "thresholds_inv s \<Longrightarrow> thresholds_inv (apply_writes ws s)"
  by (induction ws arbitrary: s) (simp_all add: apply_write_inv)

lemma limiter_init_inv: "thresholds_inv limiter_init"
  by (simp add: thresholds_inv_def limiter_init_def)

lemma written_percent_range: "0 \<le> written_percent input \<and> written_percent input \<le> 100"
  using sint_clamped_input [of input] by (simp add: written_percent_def)

lemma apply_writes_snoc: "apply_writes (ws @ [w]) s = apply_write w (apply_writes ws s)"
  by (induction ws arbitrary: s) simp_all

lemma store_charging_below_fields:
  "charging_below (snd (store_charging_below (Some input) count s))
     = (if charging_limit s \<le> written_percent input then charging_limit s - 5
        else written_percent input)"
  "charging_limit (snd (store_charging_below (Some input) count s)) = charging_limit s"
  by (simp_all add: store_charging_below_def written_percent_def Let_def)

lemma store_charging_limit_fields:
  "charging_limit (snd (store_charging_limit (Some input) count s))
     = (if written_percent input \<le> charging_below s then charging_below s + 5
        else written_percent input)"
  "charging_below (snd (store_charging_limit (Some input) count s)) = charging_below s"
  by (simp_all add: store_charging_limit_def written_percent_def Let_def)

text \<open>
  C2 (as amended). For every sequence of writes to \<open>charging_below\<close> and
  \<open>charging_limit\<close>, starting from the defaults, the stored values satisfy
  \<open>charging_limit - charging_below \<ge> 1\<close>. A further write of an unsigned value keeps
  the other threshold and stores the value, clamped to at most 100, as it is when that
  leaves \<open>charging_below < charging_limit\<close>; only when it would not, the written
  threshold is forced to a distance of exactly 5 from the other one
  (\<open>charging_limit - 5\<close>, \<open>charging_below + 5\<close>).
\<close>

theorem threshold_order_after_writes:
  "charging_limit (apply_writes ws limiter_init) - charging_below (apply_writes ws limiter_init) \<ge> 1
   \<and> 0 \<le> written_percent input \<and> written_percent input \<le> 100
   \<and> charging_below (apply_writes (ws @ [Write_charging_below (Some input) count]) limiter_init)
       = (if written_percent input < charging_limit (apply_writes ws limiter_init)
          then written_percent input
          else charging_limit (apply_writes ws limiter_init) - 5)
   \<and> charging_limit (apply_writes (ws @ [Write_charging_below (Some input) count]) limiter_init)
       = charging_limit (apply_writes ws limiter_init)
   \<and> charging_limit (apply_writes (ws @ [Write_charging_limit (Some input) count]) limiter_init)
       = (if charging_below (apply_writes ws limiter_init) < written_percent input
          then written_percent input
          else charging_below (apply_writes ws limiter_init) + 5)
   \<and> charging_below (apply_writes (ws @ [Write_charging_limit (Some input) count]) limiter_init)
       = charging_below (apply_writes ws limiter_init)"
proof -
  have "thresholds_inv (apply_writes ws limiter_init)"
    by (rule apply_writes_inv [OF limiter_init_inv])
  then have "charging_limit (apply_writes ws limiter_init)
               - charging_below (apply_writes ws limiter_init) \<ge> 1"
    by (simp add: thresholds_inv_def)
  then show ?thesis
    using written_percent_range [of input]
    by (simp add: apply_writes_snoc store_charging_below_fields store_charging_limit_fields
          not_less)
qed

theorem threshold_order_after_writes_witness:
  "charging_limit (apply_writes [Write_charging_limit (Some 98) 3] limiter_init)
     - charging_below (apply_writes [Write_charging_limit (Some 98) 3] limiter_init) = 3
   \<and> written_percent 99 = 99
   \<and> charging_below (apply_writes
        ([Write_charging_limit (Some 98) 3] @ [Write_charging_below (Some 99) 3]) limiter_init) = 93
   \<and> charging_limit (apply_writes
        ([Write_charging_limit (Some 98) 3] @ [Write_charging_below (Some 99) 3]) limiter_init) = 98
   \<and> charging_limit (apply_writes
        ([Write_charging_limit (Some 98) 3] @ [Write_charging_limit (Some 99) 3]) limiter_init) = 99
   \<and> charging_below (apply_writes
        ([Write_charging_limit (Some 98) 3] @ [Write_charging_limit (Some 99) 3]) limiter_init) = 95"
  using threshold_order_after_writes [of "[Write_charging_limit (Some 98) 3]" 99 3]
  by (simp add: written_percent_def store_charging_limit_def limiter_init_def)

text \<open>
  C2 as stated fails: with the defaults (95, 100), writing 99 to \<open>charging_below\<close> is
  stored as it is, and the distance is 1.
\<close>

theorem gap_of_five_counterexample:
  "\<not> (charging_limit (apply_writes [Write_charging_below (Some 99) 3] limiter_init)
        - charging_below (apply_writes [Write_charging_below (Some 99) 3] limiter_init) \<ge> 5)"
  by (simp add: store_charging_below_def limiter_init_def)

text \<open>
  C9. The stores clamp what is written to at most 100, but the forced value
  \<open>charging_below + 5\<close> or \<open>charging_limit - 5\<close> is stored unclamped: from the defaults,
  writing 99 to \<open>charging_below\<close> and then 0 to \<open>charging_limit\<close> stores a limit of 104,
  and writing 0 to \<open>charging_below\<close>, 1 to \<open>charging_limit\<close> and 50 to \<open>charging_below\<close>
  stores a \<open>charging_below\<close> of -4.
\<close>

theorem thresholds_leave_percent_range:
  "charging_limit (apply_writes
      [Write_charging_below (Some 99) 3, Write_charging_limit (Some 0) 2] limiter_init) = 104
   \<and> charging_below (apply_writes
      [Write_charging_below (Some 0) 2, Write_charging_limit (Some 1) 2,
       Write_charging_below (Some 50) 3] limiter_init) = - 4"
  by (simp add: store_charging_below_def store_charging_limit_def limiter_init_def)

subsection \<open>The actuation layer\<close>

lemma enable_when_not_off:
  "\<not> charging_off s \<Longrightarrow> enable_disable_charging hw True s = s"
  by (simp add: enable_disable_charging_def)

lemma disable_when_off:
  "charging_off s \<Longrightarrow> enable_disable_charging hw False s = s"
  by (simp add: enable_disable_charging_def)

lemma enable_when_off:
  "charging_off s \<Longrightarrow>
   enable_disable_charging hw True s =
     s\<lparr>set_charging_calls := set_charging_calls s @ [True],
       charging_off := hw (length (set_charging_calls s)) True \<noteq> 0\<rparr>"
  by (simp add: enable_disable_charging_def power_supply_set_charging_enabled_def)

lemma disable_when_not_off:
  "\<not> charging_off s \<Longrightarrow>
   enable_disable_charging hw False s =
     s\<lparr>set_charging_calls := set_charging_calls s @ [False],
       charging_off := (hw (length (set_charging_calls s)) False = 0)\<rparr>"
  by (simp add: enable_disable_charging_def power_supply_set_charging_enabled_def)

lemma enable_disable_charging_keeps:
  "charging_below (enable_disable_charging hw enable s) = charging_below s"
  "charging_limit (enable_disable_charging hw enable s) = charging_limit s"
  "charge_should_off (enable_disable_charging hw enable s) = charge_should_off s"
  by (simp_all add: enable_disable_charging_def power_supply_set_charging_enabled_def)

lemma reschedule_worker_fields:
  "charging_off (reschedule_worker ms s) = charging_off s"
  "charge_should_off (reschedule_worker ms s) = charge_should_off s"
  "charging_below (reschedule_worker ms s) = charging_below s"
  "charging_limit (reschedule_worker ms s) = charging_limit s"
  "set_charging_calls (reschedule_worker ms s) = set_charging_calls s"
  "charger_limiter_work (reschedule_worker ms s) = Some ms"
  by (simp_all add: reschedule_worker_def)

lemma worker_on_sample:
  assumes "sample batt_psy usb_psy = Some (status, bat_percent, usb_connect)"
  shows "charger_limiter_worker hw batt_psy usb_psy s =
           Inr (reschedule_worker (snd (worker_decide hw status bat_percent usb_connect s))
                  (fst (worker_decide hw status bat_percent usb_connect s)))"
  using assms
  by (auto simp add: sample_def charger_limiter_worker_def split: option.splits prod.splits)

lemma sample_of_supplies:
  "sample (battery_supply status bat_percent) (usb_supply usb_connect)
     = Some (status, bat_percent, usb_connect)"
  by (simp add: sample_def battery_supply_def usb_supply_def psy_of_def)

subsection \<open>Debounce\<close>

lemma first_cycle_at_limit:
  assumes "\<not> charge_should_off s"
    and "charging_below s < bat_percent" and "charging_limit s \<le> bat_percent"
    and "charging_or_usb status usb_connect"
  shows "worker_decide hw status bat_percent usb_connect s = (s\<lparr>charge_should_off := True\<rparr>, 10000)"
  using assms by (simp add: worker_decide_def charging_or_usb_def)

lemma second_cycle_at_limit:
  assumes "charge_should_off s"
    and "charging_below s < bat_percent" and "charging_limit s \<le> bat_percent"
    and "charging_or_usb status usb_connect"
  shows "worker_decide hw status bat_percent usb_connect s =
           ((enable_disable_charging hw False s)\<lparr>charge_should_off := False\<rparr>, 1000)"
  using assms by (simp add: worker_decide_def charging_or_usb_def)

text \<open>
  C1. From the state Active (\<open>charging_off\<close> and \<open>charge_should_off\<close> both false),
  with \<open>charging_below < charging_limit\<close> as the stores keep it, a cycle whose sample
  has a capacity of at least \<open>charging_limit\<close> while charging or with USB present makes
  no actuator call, sets \<open>charge_should_off\<close> and queues the next run after 10000 ms;
  a second such cycle right after it calls the actuator once, with \<open>enable = false\<close>,
  and clears \<open>charge_should_off\<close>.
\<close>

theorem debounce_at_upper_threshold:
  assumes active: "\<not> charging_off s" "\<not> charge_should_off s"
    and order: "charging_below s < charging_limit s"
    and first: "sample batt_a usb_a = Some (status_a, percent_a, connect_a)"
      "charging_limit s \<le> percent_a" "charging_or_usb status_a connect_a"
    and second: "sample batt_b usb_b = Some (status_b, percent_b, connect_b)"
      "charging_limit s \<le> percent_b" "charging_or_usb status_b connect_b"
  shows "\<exists>s1 s2.
           charger_limiter_worker hw batt_a usb_a s = Inr s1
         \<and> s1 = s\<lparr>charge_should_off := True, charger_limiter_work := Some 10000\<rparr>
         \<and> set_charging_calls s1 = set_charging_calls s
         \<and> charger_limiter_worker hw batt_b usb_b s1 = Inr s2
         \<and> set_charging_calls s2 = set_charging_calls s @ [False]
         \<and> \<not> charge_should_off s2"
proof -
  let ?s1 = "s\<lparr>charge_should_off := True, charger_limiter_work := Some 10000\<rparr>"
  have d1: "worker_decide hw status_a percent_a connect_a s = (s\<lparr>charge_should_off := True\<rparr>, 10000)"
    using active(2) order first(2,3) by (intro first_cycle_at_limit) simp_all
  have w1: "charger_limiter_worker hw batt_a usb_a s = Inr ?s1"
    by (simp add: worker_on_sample [OF first(1)] d1 reschedule_worker_def)
  have d2: "worker_decide hw status_b percent_b connect_b ?s1 =
              ((enable_disable_charging hw False ?s1)\<lparr>charge_should_off := False\<rparr>, 1000)"
    using order second(2,3) by (intro second_cycle_at_limit) simp_all
  have off: "\<not> charging_off ?s1" using active(1) by simp
  have w2: "charger_limiter_worker hw batt_b usb_b ?s1 =
              Inr (reschedule_worker 1000
                     ((enable_disable_charging hw False ?s1)\<lparr>charge_should_off := False\<rparr>))"
    by (simp add: worker_on_sample [OF second(1)] d2)
  show ?thesis
    by (simp add: w1 w2 disable_when_not_off [OF off] reschedule_worker_def)
qed

theorem debounce_at_upper_threshold_witness:
  "\<exists>s1 s2.
      charger_limiter_worker (\<lambda>n e. 0) (battery_supply POWER_SUPPLY_STATUS_CHARGING 100)
        (usb_supply 1) limiter_init = Inr s1
    \<and> s1 = limiter_init\<lparr>charge_should_off := True, charger_limiter_work := Some 10000\<rparr>
    \<and> set_charging_calls s1 = set_charging_calls limiter_init
    \<and> charger_limiter_worker (\<lambda>n e. 0) (battery_supply POWER_SUPPLY_STATUS_CHARGING 100)
        (usb_supply 1) s1 = Inr s2
    \<and> set_charging_calls s2 = set_charging_calls limiter_init @ [False]
    \<and> \<not> charge_should_off s2"
  by (rule debounce_at_upper_threshold
        [where status_a = POWER_SUPPLY_STATUS_CHARGING and percent_a = 100 and connect_a = 1
           and status_b = POWER_SUPPLY_STATUS_CHARGING and percent_b = 100 and connect_b = 1])
     (simp_all add: limiter_init_def sample_of_supplies charging_or_usb_def)

subsection \<open>The pair of flags\<close>

lemma worker_decide_off_turns_on:
  assumes "worker_decide hw status bat_percent usb_connect s = (s', ms)"
    and "\<not> charging_off s" and "charging_off s'"
  shows "\<not> charge_should_off s' \<and> set_charging_calls s' = set_charging_calls s @ [False]"
proof -
  have s1: "(if bat_percent \<le> charging_below s then enable_disable_charging hw True s else s) = s"
    using assms(2) by (simp add: enable_when_not_off)
  show ?thesis
    using assms
    unfolding worker_decide_def Let_def s1
    by (auto simp add: enable_when_not_off disable_when_not_off split: if_splits)
qed

text \<open>
  C4 (as amended). A cycle that turns \<open>charging_off\<close> from false to true ends with
  \<open>charge_should_off\<close> false, and it made exactly one actuator call, with
  \<open>enable = false\<close>. The pair (true, true) itself is reachable: see the counterexample.
\<close>

theorem suppressing_clears_pending_stop:
  assumes "charger_limiter_worker hw batt_psy usb_psy s = Inr s'"
    and "\<not> charging_off s" and "charging_off s'"
  shows "\<not> charge_should_off s' \<and> set_charging_calls s' = set_charging_calls s @ [False]"
proof (cases "sample batt_psy usb_psy")
  case None
  then have "s' = reschedule_worker 5000 s"
    using assms(1)
    by (auto simp add: sample_def charger_limiter_worker_def split: option.splits)
  then show ?thesis using assms(2,3) by (simp add: reschedule_worker_def)
next
  case (Some v)
  obtain status bat_percent usb_connect where v: "v = (status, bat_percent, usb_connect)"
    by (cases v) auto
  obtain t ms where d: "worker_decide hw status bat_percent usb_connect s = (t, ms)"
    by (cases "worker_decide hw status bat_percent usb_connect s") auto
  have s': "s' = reschedule_worker ms t"
    using assms(1) worker_on_sample [of batt_psy usb_psy status bat_percent usb_connect hw s]
    by (simp add: Some v d)
  then have "charging_off t" using assms(3) by (simp add: reschedule_worker_def)
  from worker_decide_off_turns_on [OF d assms(2) this]
  show ?thesis by (simp add: s' reschedule_worker_def)
qed

theorem suppressing_clears_pending_stop_witness:
  "\<not> charge_should_off
        (limiter_init\<lparr>charging_off := True, charger_limiter_work := Some 1000,
            set_charging_calls := [False]\<rparr>)
   \<and> set_charging_calls
        (limiter_init\<lparr>charging_off := True, charger_limiter_work := Some 1000,
            set_charging_calls := [False]\<rparr>)
       = set_charging_calls (limiter_init\<lparr>charge_should_off := True\<rparr>) @ [False]"
  by (rule suppressing_clears_pending_stop
        [where hw = "\<lambda>n e. 0" and batt_psy = "battery_supply POWER_SUPPLY_STATUS_CHARGING 100"
           and usb_psy = "usb_supply 1"])
     (simp_all add: worker_on_sample [OF sample_of_supplies] worker_decide_def
        enable_disable_charging_def power_supply_set_charging_enabled_def
        reschedule_worker_def limiter_init_def)

text \<open>
  C4 as stated fails: enable the limiter from the initial state (thresholds 95 and 100,
  both flags false) with an actuator that succeeds; three consecutive cycles reading a
  capacity of 100 with USB present end with \<open>charging_off\<close> and \<open>charge_should_off\<close>
  both true. The first arms the stop, the second disables charging and clears the flag,
  the third arms the flag again.
\<close>

theorem suppressed_and_pending_counterexample:
  "run_worker (\<lambda>n e. 0)
     [(battery_supply 3 100, usb_supply 1), (battery_supply 3 100, usb_supply 1),
      (battery_supply 3 100, usb_supply 1)]
     (snd (store_enabled (\<lambda>n e. 0) True (battery_supply 3 100) (Some 1) 2 limiter_init))
   = Inr \<lparr> charging_off = True, cl_is_enabled = True, charge_should_off = True,
           enabled = 1, charging_below = 95, charging_limit = 100,
           charge_limiter_wq = True, charger_limiter_work = Some 10000,
           set_charging_calls = [False] \<rparr>"
  by (simp add: worker_on_sample [OF sample_of_supplies] worker_decide_def
        enable_disable_charging_def power_supply_set_charging_enabled_def
        store_enabled_def start_charger_limiter_def
        reschedule_worker_def limiter_init_def POWER_SUPPLY_STATUS_CHARGING_def)

subsection \<open>Resume\<close>

lemma resume_cycle:
  assumes "bat_percent \<le> charging_below s"
  shows "worker_decide hw status bat_percent usb_connect s =
           (if charging_or_usb status usb_connect
            then enable_disable_charging hw True (enable_disable_charging hw True s)
            else enable_disable_charging hw True s, 1000)"
  using assms
  by (simp add: worker_decide_def charging_or_usb_def enable_disable_charging_keeps)

text \<open>
  C5 (as amended). For every available sample with a capacity of at most
  \<open>charging_below\<close>, whatever the two flags, the status and the USB presence are, the
  cycle ends with \<open>charging_off\<close> false exactly when it was false before, or the
  \<open>set_charging(true)\<close> call the cycle makes succeeds, or, with charging or USB present,
  the second attempt made in the same cycle succeeds. In particular it ends false
  whenever the actuator does not fail.
\<close>

theorem resume_dominance:
  assumes "sample batt_psy usb_psy = Some (status, bat_percent, usb_connect)"
    and "bat_percent \<le> charging_below s"
  shows "\<exists>s'. charger_limiter_worker hw batt_psy usb_psy s = Inr s'
          \<and> (charging_off s' \<longleftrightarrow>
                charging_off s
              \<and> hw (length (set_charging_calls s)) True \<noteq> 0
              \<and> (charging_or_usb status usb_connect
                    \<longrightarrow> hw (Suc (length (set_charging_calls s))) True \<noteq> 0))"
proof (cases "charging_off s")
  case False
  then show ?thesis
    by (simp add: worker_on_sample [OF assms(1)] resume_cycle [OF assms(2)]
          enable_when_not_off reschedule_worker_def)
next
  case True
  let ?t = "enable_disable_charging hw True s"
  have t: "?t = s\<lparr>set_charging_calls := set_charging_calls s @ [True],
                   charging_off := hw (length (set_charging_calls s)) True \<noteq> 0\<rparr>"
    by (rule enable_when_off [OF True])
  show ?thesis
  proof (cases "hw (length (set_charging_calls s)) True = 0")
    case ok: True
    then have "\<not> charging_off ?t" by (simp add: t)
    then show ?thesis
      using ok
      by (simp add: worker_on_sample [OF assms(1)] resume_cycle [OF assms(2)]
            enable_when_not_off reschedule_worker_def)
  next
    case failed: False
    then have off: "charging_off ?t" by (simp add: t)
    have len: "length (set_charging_calls ?t) = Suc (length (set_charging_calls s))"
      by (simp add: t)
    show ?thesis
      using failed True off
      by (simp add: worker_on_sample [OF assms(1)] resume_cycle [OF assms(2)]
            enable_when_off [OF off] len reschedule_worker_def)
  qed
qed

theorem resume_dominance_witness:
  "\<exists>s'. charger_limiter_worker (\<lambda>n e. 0) (battery_supply 2 50) (usb_supply 0)
            (limiter_init\<lparr>charging_off := True\<rparr>) = Inr s'
        \<and> \<not> charging_off s'"
  using resume_dominance
    [of "battery_supply 2 50" "usb_supply 0" 2 50 0 "limiter_init\<lparr>charging_off := True\<rparr>"
        "\<lambda>n e. 0"]
  by (simp add: sample_of_supplies limiter_init_def)

text \<open>
  C5 as stated fails when the actuator fails: with charging suppressed, thresholds
  (95, 100) and a capacity of 50, a failing \<open>set_charging(true)\<close> leaves \<open>charging_off\<close>
  true at the end of the cycle.
\<close>

theorem resume_dominance_counterexample:
  "charger_limiter_worker (\<lambda>n e. - 5) (battery_supply 2 50) (usb_supply 0)
     (limiter_init\<lparr>charging_off := True\<rparr>)
   = Inr (limiter_init\<lparr>charging_off := True, charger_limiter_work := Some 1000,
            set_charging_calls := [True]\<rparr>)"
  by (simp add: worker_on_sample [OF sample_of_supplies] worker_decide_def
        enable_disable_charging_def power_supply_set_charging_enabled_def
        reschedule_worker_def limiter_init_def POWER_SUPPLY_STATUS_CHARGING_def)

subsection \<open>Idempotent actuation\<close>

lemma suppressed_cycle_above_below:
  assumes "charging_off s" and "charging_below s < bat_percent"
  shows "charging_off (fst (worker_decide hw status bat_percent usb_connect s))"
    and "set_charging_calls (fst (worker_decide hw status bat_percent usb_connect s))
           = set_charging_calls s"
    and "charging_below (fst (worker_decide hw status bat_percent usb_connect s))
           = charging_below s"
  using assms by (simp_all add: worker_decide_def disable_when_off)

lemma no_resume_step:
  assumes "charging_off s" and "no_resume_cycle s e"
  shows "\<exists>s'. charger_limiter_worker hw (fst e) (snd e) s = Inr s'
           \<and> charging_off s' \<and> set_charging_calls s' = set_charging_calls s
           \<and> charging_below s' = charging_below s"
proof (cases "sample_unavailable (fst e) (snd e)")
  case True
  then show ?thesis using assms(1) by (simp add: worker_unavailable)
next
  case False
  with assms(2) obtain status bat_percent usb_connect
    where smp: "sample (fst e) (snd e) = Some (status, bat_percent, usb_connect)"
      and above: "charging_below s < bat_percent"
    by (auto simp add: no_resume_cycle_def split: option.splits)
  show ?thesis
    using suppressed_cycle_above_below [OF assms(1) above, of hw status usb_connect]
    by (simp add: worker_on_sample [OF smp] reschedule_worker_def)
qed

lemma no_resume_cycle_same_below:
  "charging_below s' = charging_below s \<Longrightarrow> no_resume_cycle s' e = no_resume_cycle s e"
  by (simp add: no_resume_cycle_def split: option.splits prod.splits)

text \<open>
  C6. Once \<open>charging_off\<close> is true, no run of cycles without a resume cycle (every
  sample unavailable, or with a capacity above \<open>charging_below\<close>; this covers every
  cycle at or above \<open>charging_limit\<close>) calls the actuator: the run returns, the log of
  calls is as it was, and \<open>charging_off\<close> is still true.
\<close>

theorem idempotent_actuation:
  assumes "charging_off s" and "\<forall>e \<in> set es. no_resume_cycle s e"
  shows "\<exists>s'. run_worker hw es s = Inr s'
           \<and> set_charging_calls s' = set_charging_calls s \<and> charging_off s'"
  using assms
proof (induction es arbitrary: s)
  case Nil
  then show ?case by simp
next
  case (Cons e es)
  from Cons.prems obtain t where
    t: "charger_limiter_worker hw (fst e) (snd e) s = Inr t" "charging_off t"
      "set_charging_calls t = set_charging_calls s" "charging_below t = charging_below s"
    using no_resume_step [of s e hw] by auto
  have "\<forall>e \<in> set es. no_resume_cycle t e"
    using Cons.prems(2) no_resume_cycle_same_below [OF t(4)] by simp
  from Cons.IH [OF t(2) this] show ?case by (simp add: t)
qed

theorem idempotent_actuation_witness:
  "\<exists>s'. run_worker (\<lambda>n e. 0)
            [(battery_supply 3 100, usb_supply 1), (battery_supply 3 100, usb_supply 1)]
            (limiter_init\<lparr>charging_off := True, set_charging_calls := [False]\<rparr>) = Inr s'
        \<and> set_charging_calls s' = [False] \<and> charging_off s'"
  using idempotent_actuation
    [of "limiter_init\<lparr>charging_off := True, set_charging_calls := [False]\<rparr>"
        "[(battery_supply 3 100, usb_supply 1), (battery_supply 3 100, usb_supply 1)]"
        "\<lambda>n e. 0"]
  by (simp add: no_resume_cycle_def sample_of_supplies limiter_init_def)

subsection \<open>Actuator failure\<close>






subsection \<open>Resume and the debounce flag\<close>

text \<open>
  C10. A successful resume does not clear \<open>charge_should_off\<close>: from a state where it
  is set, after a cycle with a capacity of at most \<open>charging_below\<close> whose resume call
  (if one is needed) succeeds, a single cycle with a capacity of at least
  \<open>charging_limit\<close> while charging or with USB present calls the actuator with
  \<open>enable = false\<close> at once.
\<close>

theorem resume_keeps_pending_stop:
  assumes pending: "charge_should_off s"
    and order: "charging_below s < charging_limit s"
    and first: "sample batt_a usb_a = Some (status_a, percent_a, connect_a)"
      "percent_a \<le> charging_below s"
    and resumed: "charging_off s \<longrightarrow> hw (length (set_charging_calls s)) True = 0"
    and second: "sample batt_b usb_b = Some (status_b, percent_b, connect_b)"
      "charging_limit s \<le> percent_b" "charging_or_usb status_b connect_b"
  shows "\<exists>s1 s2.
           charger_limiter_worker hw batt_a usb_a s = Inr s1
         \<and> \<not> charging_off s1 \<and> charge_should_off s1
         \<and> charger_limiter_worker hw batt_b usb_b s1 = Inr s2
         \<and> set_charging_calls s2 = set_charging_calls s1 @ [False]
         \<and> \<not> charge_should_off s2
         \<and> charger_limiter_work s2 = Some 1000"
proof -
  let ?t = "enable_disable_charging hw True s"
  have t_off: "\<not> charging_off ?t"
    using resumed by (cases "charging_off s") (simp_all add: enable_when_off enable_when_not_off)
  have d1: "worker_decide hw status_a percent_a connect_a s = (?t, 1000)"
    by (simp add: resume_cycle [OF first(2)] enable_when_not_off [OF t_off])
  let ?s1 = "reschedule_worker 1000 ?t"
  have w1: "charger_limiter_worker hw batt_a usb_a s = Inr ?s1"
    by (simp add: worker_on_sample [OF first(1)] d1)
  have s1_off: "\<not> charging_off ?s1" using t_off by (simp add: reschedule_worker_def)
  have s1_pending: "charge_should_off ?s1"
    using pending by (simp add: reschedule_worker_def enable_disable_charging_keeps)
  have s1_below: "charging_below ?s1 < percent_b" and s1_limit: "charging_limit ?s1 \<le> percent_b"
    using order second(2) by (simp_all add: reschedule_worker_def enable_disable_charging_keeps)
  have d2: "worker_decide hw status_b percent_b connect_b ?s1 =
              ((enable_disable_charging hw False ?s1)\<lparr>charge_should_off := False\<rparr>, 1000)"
    using s1_pending s1_below s1_limit second(3) by (rule second_cycle_at_limit)
  have w2: "charger_limiter_worker hw batt_b usb_b ?s1 =
              Inr (reschedule_worker 1000
                     ((enable_disable_charging hw False ?s1)\<lparr>charge_should_off := False\<rparr>))"
    by (simp add: worker_on_sample [OF second(1)] d2)
  let ?s2 = "reschedule_worker 1000
               ((enable_disable_charging hw False ?s1)\<lparr>charge_should_off := False\<rparr>)"
  have s2: "set_charging_calls ?s2 = set_charging_calls ?s1 @ [False]"
    "\<not> charge_should_off ?s2" "charger_limiter_work ?s2 = Some 1000"
    by (simp_all add: disable_when_not_off [OF s1_off] reschedule_worker_fields)
  show ?thesis
    using w1 s1_off s1_pending w2 s2 by blast
qed

theorem resume_keeps_pending_stop_witness:
  "\<exists>s1 s2.
      charger_limiter_worker (\<lambda>n e. 0) (battery_supply 2 90) (usb_supply 0)
        (limiter_init\<lparr>charging_off := True, charge_should_off := True\<rparr>) = Inr s1
    \<and> \<not> charging_off s1 \<and> charge_should_off s1
    \<and> charger_limiter_worker (\<lambda>n e. 0) (battery_supply POWER_SUPPLY_STATUS_CHARGING 100)
        (usb_supply 1) s1 = Inr s2
    \<and> set_charging_calls s2 = set_charging_calls s1 @ [False]
    \<and> \<not> charge_should_off s2
    \<and> charger_limiter_work s2 = Some 1000"
  by (rule resume_keeps_pending_stop
        [where status_a = 2 and percent_a = 90 and connect_a = 0
           and status_b = POWER_SUPPLY_STATUS_CHARGING and percent_b = 100 and connect_b = 1])
     (simp_all add: limiter_init_def sample_of_supplies charging_or_usb_def)

subsection \<open>Stopping the limiter\<close>

lemma store_enabled_zero_when_running:
  assumes "cl_is_enabled s"
  shows "snd (store_enabled hw alloc_ok batt_psy (Some 0) count s) =
           (stop_charger_limiter hw batt_psy (s\<lparr>enabled := 0\<rparr>))\<lparr>cl_is_enabled := False\<rparr>"
  using assms by (simp add: store_enabled_def)

text \<open>
  C3 (as amended). When the limiter is running and 0 is written to \<open>enabled\<close>, the
  pending work is cancelled and the final resume goes through
  \<^verbatim>\<open>enable_disable_charging\<close>: the actuator is called exactly once, with
  \<open>enable = true\<close>, when \<open>charging_off\<close> is true and the battery supply is found, and not
  at all otherwise; \<open>charging_off\<close> is false afterwards unless that call fails or the
  battery supply is not found.
\<close>

theorem shutdown_resume:
  assumes "cl_is_enabled s"
  shows "set_charging_calls (snd (store_enabled hw alloc_ok batt_psy (Some 0) count s))
           = set_charging_calls s @ (if charging_off s \<and> batt_psy \<noteq> None then [True] else [])
       \<and> (charging_off (snd (store_enabled hw alloc_ok batt_psy (Some 0) count s))
            \<longleftrightarrow> charging_off s
              \<and> (batt_psy = None \<or> hw (length (set_charging_calls s)) True \<noteq> 0))
       \<and> \<not> cl_is_enabled (snd (store_enabled hw alloc_ok batt_psy (Some 0) count s))
       \<and> charger_limiter_work (snd (store_enabled hw alloc_ok batt_psy (Some 0) count s)) = None"
proof (cases "charging_off s")
  case True
  then show ?thesis
    by (cases batt_psy)
       (simp_all add: store_enabled_zero_when_running [OF assms] stop_charger_limiter_def
          Let_def enable_when_off)
next
  case False
  then show ?thesis
    by (simp add: store_enabled_zero_when_running [OF assms] stop_charger_limiter_def
          Let_def enable_when_not_off)
qed

theorem shutdown_resume_witness:
  "set_charging_calls
     (snd (store_enabled (\<lambda>n e. 0) True (battery_supply 3 100) (Some 0) 2
        (limiter_init\<lparr>cl_is_enabled := True, enabled := 1, charging_off := True,
           set_charging_calls := [False]\<rparr>))) = [False, True]
   \<and> \<not> charging_off
     (snd (store_enabled (\<lambda>n e. 0) True (battery_supply 3 100) (Some 0) 2
        (limiter_init\<lparr>cl_is_enabled := True, enabled := 1, charging_off := True,
           set_charging_calls := [False]\<rparr>)))"
  using shutdown_resume
    [of "limiter_init\<lparr>cl_is_enabled := True, enabled := 1, charging_off := True,
           set_charging_calls := [False]\<rparr>" "\<lambda>n e. 0" True "battery_supply 3 100" 2]
  by (simp add: battery_supply_def psy_of_def)

text \<open>
  C3 as stated fails: enable the limiter from the initial state and disable it again
  while \<open>charging_off\<close> is false; no actuator call is made at all.
\<close>

theorem shutdown_without_call_counterexample:
  "set_charging_calls
     (snd (store_enabled (\<lambda>n e. 0) True (battery_supply 3 100) (Some 0) 2
        (snd (store_enabled (\<lambda>n e. 0) True (battery_supply 3 100) (Some 1) 2 limiter_init))))
   = []"
  by (simp add: store_enabled_def start_charger_limiter_def stop_charger_limiter_def
        enable_disable_charging_def reschedule_worker_def limiter_init_def
        battery_supply_def psy_of_def)

end
